theory Spec2Isabelle
  imports Main
begin

section \<open>The stream pipeline: \<open>createBufferedStream\<close> (index.js, lines 68-117)\<close>

text \<open>
  \<open>createBufferedStream(url, bufferSizeMB)\<close> spawns yt-dlp and ffmpeg, pipes one into the
  other and registers callbacks. Everything that happens afterwards is driven by the
  events the two child processes and the 10 ms timer deliver to those callbacks. The
  model keeps the variables the callbacks close over in a record and has one definition
  per callback; a chunk is represented by its length, the only thing the code reads.
\<close>

datatype js_error = Error string | ReferenceError string

datatype event =
    FfmpegData nat          \<comment> \<open>\<open>ffmpeg.stdout\<close> emits \<open>data\<close> with a chunk of that length\<close>
  | FfmpegEnd               \<comment> \<open>\<open>ffmpeg.stdout\<close> emits \<open>end\<close>\<close>
  | FfmpegError js_error    \<comment> \<open>\<open>ffmpeg\<close> emits \<open>error\<close>\<close>
  | YtdlpError js_error     \<comment> \<open>\<open>ytdlp\<close> emits \<open>error\<close>\<close>
  | Timer                   \<comment> \<open>a pending \<open>setTimeout(check, 10)\<close> fires\<close>

datatype promise = Pending | Resolved | Rejected js_error

record pipe =
  buffered :: nat
  passThrough :: "nat list"
  passThrough_ended :: bool
  promise :: promise
  timer_armed :: bool

definition bufferLimit :: "nat \<Rightarrow> nat" where
  "bufferLimit bufferSizeMB = bufferSizeMB * 1024 * 1024"

definition on_data :: "nat \<Rightarrow> pipe \<Rightarrow> pipe" where
  "on_data chunk p = p\<lparr>buffered := buffered p + chunk, passThrough := passThrough p @ [chunk]\<rparr>"

definition on_end :: "pipe \<Rightarrow> pipe" where
  "on_end p = p\<lparr>passThrough_ended := True\<rparr>"

text \<open>A promise settles once: later calls of \<open>resolve\<close> or \<open>reject\<close> do nothing.\<close>

definition resolve :: "pipe \<Rightarrow> pipe" where
  "resolve p = (if promise p = Pending then p\<lparr>promise := Resolved\<rparr> else p)"

definition reject :: "js_error \<Rightarrow> pipe \<Rightarrow> pipe" where
  "reject err p = (if promise p = Pending then p\<lparr>promise := Rejected err\<rparr> else p)"

definition check :: "nat \<Rightarrow> pipe \<Rightarrow> pipe" where
  "check lim p =
     (if lim \<le> buffered p then (resolve p)\<lparr>timer_armed := False\<rparr>
      else p\<lparr>timer_armed := True\<rparr>)"

text \<open>The state when the promise executor has run: \<open>check()\<close> was called once.\<close>

definition start :: "nat \<Rightarrow> pipe" where
  "start lim =
     check lim \<lparr>buffered = 0, passThrough = [], passThrough_ended = False,
                promise = Pending, timer_armed = False\<rparr>"

definition deliver :: "nat \<Rightarrow> event \<Rightarrow> pipe \<Rightarrow> pipe" where
  "deliver lim ev p =
     (case ev of
        FfmpegData chunk \<Rightarrow> on_data chunk p
      | FfmpegEnd \<Rightarrow> on_end p
      | FfmpegError err \<Rightarrow> reject err p
      | YtdlpError err \<Rightarrow> reject err p
      | Timer \<Rightarrow> (if timer_armed p then check lim p else p))"

definition run :: "nat \<Rightarrow> pipe \<Rightarrow> event list \<Rightarrow> pipe" where
  "run lim p evs = foldl (\<lambda>q ev. deliver lim ev q) p evs"

text \<open>
  \<open>await new Promise(...)\<close>: the caller continues when the promise settles. The event
  list holds what the processes emit and the timer firings in between; after its end
  nothing but the timer fires any more, so a promise still pending there resolves at the
  next poll when the counter has reached the limit, and otherwise stays pending for ever
  (\<open>Hangs\<close>). Lemmas \<open>poll_forever\<close> and \<open>poll_resolves\<close> below justify this reading against
  explicit timer events.
\<close>

datatype settle = Resolves | Rejects js_error | Hangs

fun await_promise :: "nat \<Rightarrow> pipe \<Rightarrow> event list \<Rightarrow> settle \<times> pipe" where
  "await_promise lim p [] =
     (case promise p of
        Resolved \<Rightarrow> (Resolves, p)
      | Rejected err \<Rightarrow> (Rejects err, p)
      | Pending \<Rightarrow> (if lim \<le> buffered p then (Resolves, check lim p) else (Hangs, p)))"
| "await_promise lim p (ev # evs) =
     (case promise p of
        Resolved \<Rightarrow> (Resolves, p)
      | Rejected err \<Rightarrow> (Rejects err, p)
      | Pending \<Rightarrow> await_promise lim (deliver lim ev p) evs)"


section \<open>The per-guild state (index.js, line 30) and the outside world\<close>

text \<open>
  A child process is identified by the order in which it was spawned. The bot can only
  end a process by \<open>kill()\<close>; \<open>killed\<close> collects the processes it has killed, so a process
  that was spawned and is not in \<open>killed\<close> has never been terminated by the bot.
\<close>

type_synonym pid = nat

record procs =
  ytdlp :: pid
  ffmpeg :: pid

text \<open>The value \<open>{ proc: { ytdlp, ffmpeg }, stream: passThrough }\<close>; the pass-through stream
  is named after the transcoder that feeds it.\<close>

record audio =
  proc :: procs
  stream :: pid

record song =
  title :: string
  url :: string
  buffer :: "audio option"

text \<open>
  The audio player: the resource it was last told to play, and how many one-shot
  listeners \<open>playSong\<close> has registered on it with \<open>once\<close> for \<open>Idle\<close> and for \<open>error\<close> that
  have not fired yet. All of them close over the same \<open>server\<close> and \<open>guildId\<close>, so their
  number is all that matters.
\<close>

record player =
  resource :: "pid option"
  idle_once :: nat
  error_once :: nat

record server =
  connection :: nat
  player :: player
  songs :: "song list"
  playProcess :: "procs option"

datatype log_line =
    LogSpawning string
  | LogBuffered nat
  | LogStarting string string
  | LogFailedCreate js_error
  | LogPlayerError js_error
  | LogSearchError js_error
  | LogPlaySongFailed js_error

record world =
  queues :: "string \<rightharpoonup> server"
  next_pid :: pid
  killed :: "pid set"
  next_conn :: nat
  destroyed :: "nat set"
  immediates :: "string list"     \<comment> \<open>pending \<open>setImmediate(() => playSong(guildId))\<close>\<close>
  console :: "log_line list"

definition initial :: world where
  "initial = \<lparr>queues = Map.empty, next_pid = 0, killed = {}, next_conn = 0,
              destroyed = {}, immediates = [], console = []\<rparr>"

text \<open>
  What the bot does not decide: the events the processes spawned for a URL deliver, and
  what \<open>ytSearch\<close> answers. \<open>SearchReturns None\<close> stands for an answer whose \<open>videos\<close> is
  missing (\<open>info?.videos\<close> is undefined).
\<close>

record video =
  vtitle :: string
  vurl :: string

datatype search_result = SearchThrows js_error | SearchReturns "video list option"

record env =
  trace_of :: "string \<Rightarrow> event list"
  ytSearch :: "string \<Rightarrow> search_result"

text \<open>How an awaited asynchronous call ends.\<close>

datatype 'a awaited = Returns 'a | Throws js_error | NeverSettles

definition createBufferedStream :: "env \<Rightarrow> string \<Rightarrow> nat \<Rightarrow> world \<Rightarrow> audio awaited \<times> world" where
  "createBufferedStream e u bufferSizeMB w =
     (let ytdlp_pid = next_pid w;
          ffmpeg_pid = next_pid w + 1;
          w1 = w\<lparr>next_pid := next_pid w + 2, console := console w @ [LogSpawning u]\<rparr>;
          lim = bufferLimit bufferSizeMB
      in case await_promise lim (start lim) (trace_of e u) of
           (Resolves, p) \<Rightarrow>
             (Returns \<lparr>proc = \<lparr>ytdlp = ytdlp_pid, ffmpeg = ffmpeg_pid\<rparr>, stream = ffmpeg_pid\<rparr>,
              w1\<lparr>console := console w1 @ [LogBuffered (buffered p)]\<rparr>)
         | (Rejects err, p) \<Rightarrow> (Throws err, w1)
         | (Hangs, p) \<Rightarrow> (NeverSettles, w1))"

section \<open>\<open>playSong\<close> (index.js, lines 120-159)\<close>

text \<open>Lines 141-158: hand the stream to the player, bind the process pair, register the
  two one-shot listeners. \<open>song.buffer = audio\<close> (line 134) is the first update.\<close>

definition start_playback :: "string \<Rightarrow> server \<Rightarrow> song \<Rightarrow> song list \<Rightarrow> audio \<Rightarrow> world \<Rightarrow> world" where
  "start_playback guildId srv sng rest a w =
     w\<lparr>queues := (queues w)(guildId \<mapsto>
          srv\<lparr>songs := sng\<lparr>buffer := Some a\<rparr> # rest,
               player := \<lparr>resource = Some (stream a),
                          idle_once = idle_once (player srv) + 1,
                          error_once = error_once (player srv) + 1\<rparr>,
               playProcess := Some (proc a)\<rparr>)\<rparr>"

function playSong :: "env \<Rightarrow> string \<Rightarrow> world \<Rightarrow> unit awaited \<times> world" where
  "playSong e guildId w =
     (case queues w guildId of
        None \<Rightarrow> (Returns (), w\<lparr>queues := (queues w)(guildId := None)\<rparr>)
      | Some srv \<Rightarrow>
          (case songs srv of
             [] \<Rightarrow>
               (Returns (), w\<lparr>destroyed := insert (connection srv) (destroyed w),
                              queues := (queues w)(guildId := None)\<rparr>)
           | sng # rest \<Rightarrow>
               (let w1 = w\<lparr>console := console w @ [LogStarting (title sng) (url sng)]\<rparr>
                in case buffer sng of
                     Some a \<Rightarrow> (Returns (), start_playback guildId srv sng rest a w1)
                   | None \<Rightarrow>
                       (case createBufferedStream e (url sng) 5 w1 of
                          (Returns a, w2) \<Rightarrow> (Returns (), start_playback guildId srv sng rest a w2)
                        | (NeverSettles, w2) \<Rightarrow> (NeverSettles, w2)
                        | (Throws err, w2) \<Rightarrow>
                            playSong e guildId
                              (w2\<lparr>console := console w2 @ [LogFailedCreate err],
                                  queues := (queues w2)(guildId \<mapsto> srv\<lparr>songs := rest\<rparr>)\<rparr>)))))"
  by pat_completeness auto
termination
  by (relation "measure (\<lambda>(e, g, w). case queues w g of None \<Rightarrow> 0 | Some srv \<Rightarrow> length (songs srv))")
     auto

text \<open>The equation of \<open>playSong\<close> rewrites a call into one that contains a call: it is
  unfolded by hand, one call at a time.\<close>

declare playSong.simps [simp del]

section \<open>The player's one-shot listeners (index.js, lines 145-158)\<close>

definition kill_pair :: "procs option \<Rightarrow> pid set \<Rightarrow> pid set" where
  "kill_pair pp ks = (case pp of None \<Rightarrow> ks | Some pr \<Rightarrow> insert (ffmpeg pr) (insert (ytdlp pr) ks))"

definition on_idle :: "string \<Rightarrow> world \<Rightarrow> world" where
  "on_idle guildId w =
     (case queues w guildId of
        None \<Rightarrow> w\<lparr>immediates := immediates w @ [guildId]\<rparr>
      | Some srv \<Rightarrow>
          w\<lparr>killed := kill_pair (playProcess srv) (killed w),
            queues := (queues w)(guildId \<mapsto> srv\<lparr>songs := tl (songs srv)\<rparr>),
            immediates := immediates w @ [guildId]\<rparr>)"

definition on_error :: "string \<Rightarrow> js_error \<Rightarrow> world \<Rightarrow> world" where
  "on_error guildId err w =
     (let w1 = w\<lparr>console := console w @ [LogPlayerError err]\<rparr>
      in case queues w1 guildId of
           None \<Rightarrow> w1\<lparr>immediates := immediates w1 @ [guildId]\<rparr>
         | Some srv \<Rightarrow>
             w1\<lparr>killed := kill_pair (playProcess srv) (killed w1),
                queues := (queues w1)(guildId \<mapsto> srv\<lparr>songs := tl (songs srv)\<rparr>),
                immediates := immediates w1 @ [guildId]\<rparr>)"

text \<open>
  The player of a guild emits \<open>Idle\<close> or \<open>error\<close>: every one-shot listener registered for
  that event is removed and called, in turn; the \<open>setImmediate\<close> callbacks they queued run
  when all of them have returned.
\<close>

definition emit_idle :: "string \<Rightarrow> world \<Rightarrow> world" where
  "emit_idle guildId w =
     (case queues w guildId of
        None \<Rightarrow> w
      | Some srv \<Rightarrow>
          ((on_idle guildId) ^^ (idle_once (player srv)))
            (w\<lparr>queues := (queues w)(guildId \<mapsto> srv\<lparr>player := (player srv)\<lparr>idle_once := 0\<rparr>\<rparr>)\<rparr>))"

definition emit_error :: "string \<Rightarrow> js_error \<Rightarrow> world \<Rightarrow> world" where
  "emit_error guildId err w =
     (case queues w guildId of
        None \<Rightarrow> w
      | Some srv \<Rightarrow>
          ((on_error guildId err) ^^ (error_once (player srv)))
            (w\<lparr>queues := (queues w)(guildId \<mapsto> srv\<lparr>player := (player srv)\<lparr>error_once := 0\<rparr>\<rparr>)\<rparr>))"

definition run_immediates :: "env \<Rightarrow> world \<Rightarrow> world" where
  "run_immediates e w =
     foldl (\<lambda>v guildId. snd (playSong e guildId v)) (w\<lparr>immediates := []\<rparr>) (immediates w)"

section \<open>The command handler (index.js, lines 164-237)\<close>

subsection \<open>The link test of line 181\<close>

text \<open>
  \<open>/^(https?:\/\/)?(www\.)?(youtube\.com|youtu\.be)\//i.test(query)\<close>. The pattern is
  anchored at the start only. A matcher takes the suffixes still to be matched and
  returns the suffixes left after it; the test succeeds when some suffix is left at the
  end. Without the \<open>u\<close> flag, ignoring case never identifies a character outside ASCII
  with an ASCII letter, so folding \<open>A\<close> to \<open>Z\<close> is exact.
\<close>

definition lower :: "char \<Rightarrow> char" where
  "lower c = (let n = (of_char c :: nat) in if 65 \<le> n \<and> n \<le> 90 then char_of (n + 32) else c)"

fun strip_ci :: "string \<Rightarrow> string \<Rightarrow> string option" where
  "strip_ci [] s = Some s"
| "strip_ci (c # cs) [] = None"
| "strip_ci (c # cs) (d # ds) = (if lower d = c then strip_ci cs ds else None)"

definition lit :: "string \<Rightarrow> string list \<Rightarrow> string list" where
  "lit pat rs = List.map_filter (strip_ci pat) rs"

definition opt :: "(string list \<Rightarrow> string list) \<Rightarrow> string list \<Rightarrow> string list" where
  "opt m rs = m rs @ rs"

definition alt :: "(string list \<Rightarrow> string list) \<Rightarrow> (string list \<Rightarrow> string list) \<Rightarrow> string list \<Rightarrow> string list" where
  "alt m1 m2 rs = m1 rs @ m2 rs"

definition isUrl :: "string \<Rightarrow> bool" where
  "isUrl q =
     (lit ''/''
        (alt (lit ''youtube.com'') (lit ''youtu.be'')
           (opt (lit ''www.'')
              (opt (\<lambda>rs. lit ''://'' (opt (lit ''s'') (lit ''http'' rs))) [q]))) \<noteq> [])"

subsection \<open>Names in scope\<close>

text \<open>
  The file is an ES module: a name that no enclosing scope declares is a
  \<open>ReferenceError\<close> when it is evaluated. The lists below are the declarations of each
  scope of the handler, innermost last: the module (imports, \<open>const\<close>s and functions), the
  globals the file uses, the arrow function's parameter and its destructuring \<open>const\<close>
  (line 166), the \<open>music\<close> block (lines 172-173) and the \<open>play\<close> block (lines 179-181, 204).
  The \<open>skip\<close> block (lines 232-234) declares nothing.
\<close>

definition global_scope :: "string list" where
  "global_scope = [''process'', ''console'', ''setTimeout'', ''setImmediate'', ''Date'']"

definition module_scope :: "string list" where
  "module_scope =
     [''dotenv'', ''spawn'', ''Client'', ''GatewayIntentBits'', ''REST'', ''Routes'',
      ''joinVoiceChannel'', ''createAudioPlayer'', ''createAudioResource'',
      ''AudioPlayerStatus'', ''StreamType'', ''ytSearch'', ''PassThrough'',
      ''TOKEN'', ''CLIENT_ID'', ''GUILD_ID'', ''client'', ''queues'', ''commands'', ''rest'',
      ''registerCommands'', ''createBufferedStream'', ''playSong'']"

definition handler_scope :: "string list" where
  "handler_scope = [''interaction'', ''commandName'', ''guildId'', ''member'', ''options'']"

definition music_scope :: "string list" where
  "music_scope = [''sub'', ''voiceChannel'']"

definition play_scope :: "string list" where
  "play_scope = [''song'', ''query'', ''isUrl'', ''server'']"

definition skip_scope :: "string list" where
  "skip_scope = []"

definition evaluate_name :: "string list \<Rightarrow> string \<Rightarrow> js_error + unit" where
  "evaluate_name visible name = (if name \<in> set visible then Inr () else Inl (ReferenceError name))"

subsection \<open>The handler\<close>

record interaction =
  isChatInputCommand :: bool
  commandName :: string
  guildId :: string
  voiceChannel :: "nat option"      \<comment> \<open>\<open>member?.voice?.channel\<close>\<close>
  subcommand :: string              \<comment> \<open>\<open>options.getSubcommand()\<close>\<close>
  query :: string                   \<comment> \<open>\<open>options.getString("query")\<close>\<close>

datatype reply =
    Pong
  | Hello
  | MustBeInVoiceChannel
  | NoResultsFound
  | FailedToResolve
  | NowPlaying string
  | FailedToPlay
  | AddedToQueue string
  | SongSkipped

text \<open>Line 197 and the \<open>catch\<close> of lines 199-202 around it.\<close>

definition prebuffer :: "env \<Rightarrow> song \<Rightarrow> world \<Rightarrow> (reply + song) awaited \<times> world" where
  "prebuffer e sng w =
     (case createBufferedStream e (url sng) 5 w of
        (Returns a, w1) \<Rightarrow> (Returns (Inr (sng\<lparr>buffer := Some a\<rparr>)), w1)
      | (Throws err, w1) \<Rightarrow>
          (Returns (Inl FailedToResolve), w1\<lparr>console := console w1 @ [LogSearchError err]\<rparr>)
      | (NeverSettles, w1) \<Rightarrow> (NeverSettles, w1))"

text \<open>\<open>info?.videos?.[0]?.title || query\<close>: an empty title is falsy.\<close>

definition title_or :: "video list option \<Rightarrow> string \<Rightarrow> string" where
  "title_or vs q =
     (case vs of
        None \<Rightarrow> q
      | Some [] \<Rightarrow> q
      | Some (v # _) \<Rightarrow> (if vtitle v = [] then q else vtitle v))"

text \<open>Lines 179-202: \<open>Inl\<close> is the reply of an early \<open>return\<close>, \<open>Inr\<close> the song to enqueue.\<close>

definition resolve_song :: "env \<Rightarrow> string \<Rightarrow> world \<Rightarrow> (reply + song) awaited \<times> world" where
  "resolve_song e q w =
     (if isUrl q then
        (case ytSearch e q of
           SearchThrows err \<Rightarrow>
             (Returns (Inl FailedToResolve), w\<lparr>console := console w @ [LogSearchError err]\<rparr>)
         | SearchReturns vs \<Rightarrow>
             prebuffer e \<lparr>title = title_or vs q, url = q, buffer = None\<rparr> w)
      else
        (case ytSearch e q of
           SearchThrows err \<Rightarrow>
             (Returns (Inl FailedToResolve), w\<lparr>console := console w @ [LogSearchError err]\<rparr>)
         | SearchReturns None \<Rightarrow> (Returns (Inl NoResultsFound), w)
         | SearchReturns (Some []) \<Rightarrow> (Returns (Inl NoResultsFound), w)
         | SearchReturns (Some (v # _)) \<Rightarrow>
             prebuffer e \<lparr>title = vtitle v, url = vurl v, buffer = None\<rparr> w))"

text \<open>Lines 204-229. The calls into the voice library (\<open>createAudioPlayer\<close>,
  \<open>joinVoiceChannel\<close>, \<open>subscribe\<close>, \<open>createAudioResource\<close>, \<open>play\<close>) are taken not to throw, so
  \<open>playSong\<close> never yields \<open>Throws\<close>; the \<open>catch\<close> of lines 220-225 is modelled all the same.
  A connection is identified by the order in which it was joined.\<close>

definition enqueue :: "env \<Rightarrow> string \<Rightarrow> song \<Rightarrow> world \<Rightarrow> reply option awaited \<times> world" where
  "enqueue e g sng w =
     (case queues w g of
        None \<Rightarrow>
          (let srv = \<lparr>connection = next_conn w,
                      player = \<lparr>resource = None, idle_once = 0, error_once = 0\<rparr>,
                      songs = [sng], playProcess = None\<rparr>;
               w1 = w\<lparr>next_conn := next_conn w + 1, queues := (queues w)(g \<mapsto> srv)\<rparr>
           in case playSong e g w1 of
                (Returns _, w2) \<Rightarrow> (Returns (Some (NowPlaying (title sng))), w2)
              | (Throws err, w2) \<Rightarrow>
                  (Returns (Some FailedToPlay),
                   w2\<lparr>console := console w2 @ [LogPlaySongFailed err],
                      queues := (queues w2)(g := None),
                      destroyed := insert (connection srv) (destroyed w2)\<rparr>)
              | (NeverSettles, w2) \<Rightarrow> (NeverSettles, w2))
      | Some srv \<Rightarrow>
          (Returns (Some (AddedToQueue (title sng))),
           w\<lparr>queues := (queues w)(g \<mapsto> srv\<lparr>songs := songs srv @ [sng]\<rparr>)\<rparr>))"

definition handler :: "env \<Rightarrow> interaction \<Rightarrow> world \<Rightarrow> reply option awaited \<times> world" where
  "handler e i w =
     (if \<not> isChatInputCommand i then (Returns None, w)
      else if commandName i = ''ping'' then (Returns (Some Pong), w)
      else if commandName i = ''hello'' then (Returns (Some Hello), w)
      else if commandName i = ''music'' then
        (if subcommand i = ''play'' then
           (case voiceChannel i of
              None \<Rightarrow> (Returns (Some MustBeInVoiceChannel), w)
            | Some _ \<Rightarrow>
                (case resolve_song e (query i) w of
                   (Returns (Inl r), w1) \<Rightarrow> (Returns (Some r), w1)
                 | (Returns (Inr sng), w1) \<Rightarrow> enqueue e (guildId i) sng w1
                 | (Throws err, w1) \<Rightarrow> (Throws err, w1)
                 | (NeverSettles, w1) \<Rightarrow> (NeverSettles, w1)))
         else if subcommand i = ''skip'' then
           (case evaluate_name (skip_scope @ music_scope @ handler_scope @ module_scope @ global_scope) ''song'' of
              Inl err \<Rightarrow> (Throws err, w)
            | Inr _ \<Rightarrow> (Returns (Some SongSkipped), w))
         else (Returns None, w))
      else (Returns None, w))"

section \<open>Runs of the bot\<close>

text \<open>
  One input is one turn of the event loop together with what the outside world does
  during it: a command arrives, or a guild's player emits \<open>Idle\<close> or \<open>error\<close>. Each turn
  runs to its end before the next one starts: an \<open>await\<close> inside a handler or inside
  \<open>playSong\<close> settles, or is found never to settle, within the turn, with the outcome the
  environment gives it, and no other turn is interleaved with it.
\<close>

datatype input =
    Interaction interaction
  | PlayerIdle string
  | PlayerError string js_error

definition step :: "world \<Rightarrow> env \<times> input \<Rightarrow> world" where
  "step w ei =
     (case ei of
        (e, Interaction i) \<Rightarrow> snd (handler e i w)
      | (e, PlayerIdle g) \<Rightarrow> run_immediates e (emit_idle g w)
      | (e, PlayerError g err) \<Rightarrow> run_immediates e (emit_error g err w))"

definition run_bot :: "(env \<times> input) list \<Rightarrow> world" where
  "run_bot inputs = foldl step initial inputs"

section \<open>Which process pair a session is bound to\<close>

text \<open>
  The pair a song owns is the one in its \<open>buffer\<close>. \<open>head_bound\<close> says of a session that
  its queue is not empty, that the pair bound in \<open>playProcess\<close> is the head's, and that
  every song behind the head owns a pair of its own, which is not the bound one.
\<close>

definition pair_of :: "song \<Rightarrow> procs option" where
  "pair_of s = map_option proc (buffer s)"

definition head_bound :: "server \<Rightarrow> bool" where
  "head_bound srv \<longleftrightarrow>
     songs srv \<noteq> [] \<and> playProcess srv \<noteq> None \<and> pair_of (hd (songs srv)) = playProcess srv
     \<and> (\<forall>s \<in> set (tl (songs srv)). pair_of s \<noteq> None \<and> pair_of s \<noteq> playProcess srv)"

text \<open>
  The invariant behind it: the songs of a queue own pairwise different pairs, all
  spawned already (\<open>queued\<close>); every session is bound to its head's pair (\<open>session_ok\<close>);
  and between two turns of the event loop no \<open>setImmediate\<close> callback is pending
  (\<open>settled\<close>).
\<close>

definition queued :: "nat \<Rightarrow> song list \<Rightarrow> bool" where
  "queued n xs \<longleftrightarrow>
     distinct (map pair_of xs) \<and> (\<forall>s \<in> set xs. \<exists>a. buffer s = Some a \<and> ytdlp (proc a) < n)"

definition session_ok :: "nat \<Rightarrow> server \<Rightarrow> bool" where
  "session_ok n srv \<longleftrightarrow>
     songs srv \<noteq> [] \<and> playProcess srv = pair_of (hd (songs srv)) \<and> queued n (songs srv)"

definition sessions_ok :: "world \<Rightarrow> bool" where
  "sessions_ok w \<longleftrightarrow> (\<forall>g srv. queues w g = Some srv \<longrightarrow> session_ok (next_pid w) srv)"

definition settled :: "world \<Rightarrow> bool" where
  "settled w \<longleftrightarrow> immediates w = [] \<and> sessions_ok w"

section \<open>Predicates and sample inputs used in the statements\<close>

text \<open>The error with which the pipeline for a URL fails to start, if it does.\<close>

definition start_error :: "env \<Rightarrow> string \<Rightarrow> js_error option" where
  "start_error e u =
     (case fst (await_promise (bufferLimit 5) (start (bufferLimit 5)) (trace_of e u)) of
        Rejects err \<Rightarrow> Some err
      | Resolves \<Rightarrow> None
      | Hangs \<Rightarrow> None)"

text \<open>What one failed attempt of \<open>playSong\<close> writes to the console (lines 129, 69, 136).\<close>

definition failure_log :: "env \<Rightarrow> song \<Rightarrow> log_line list" where
  "failure_log e s =
     [LogStarting (title s) (url s), LogSpawning (url s),
      LogFailedCreate (the (start_error e (url s)))]"

text \<open>Six megabytes of audio seen by one poll; a thousand bytes and then the end of the
  stream; a process that cannot be spawned.\<close>

definition long_stream :: "event list" where
  "long_stream = [FfmpegData 6000000, Timer]"

definition short_stream :: "event list" where
  "short_stream = [FfmpegData 1000, FfmpegEnd]"

definition enoent :: js_error where
  "enoent = Error ''spawn ENOENT''"

fun const_trace :: "event list \<Rightarrow> string \<Rightarrow> event list" where
  "const_trace evs u = evs"

fun no_videos :: "string \<Rightarrow> search_result" where
  "no_videos q = SearchReturns (Some [])"

definition env_long :: env where
  "env_long = \<lparr>trace_of = const_trace long_stream, ytSearch = no_videos\<rparr>"

definition env_short :: env where
  "env_short = \<lparr>trace_of = const_trace short_stream, ytSearch = no_videos\<rparr>"

definition env_failing :: env where
  "env_failing = \<lparr>trace_of = const_trace [YtdlpError enoent], ytSearch = no_videos\<rparr>"

definition env_transcoder_failing :: env where
  "env_transcoder_failing = \<lparr>trace_of = const_trace [FfmpegError enoent], ytSearch = no_videos\<rparr>"

definition music :: "string \<Rightarrow> string \<Rightarrow> interaction" where
  "music sub q =
     \<lparr>isChatInputCommand = True, commandName = ''music'', guildId = ''g'',
      voiceChannel = Some 7, subcommand = sub, query = q\<rparr>"

definition three_queued :: "(env \<times> input) list" where
  "three_queued =
     [(env_long, Interaction (music ''play'' ''https://youtu.be/a'')),
      (env_long, Interaction (music ''play'' ''https://youtu.be/b'')),
      (env_long, Interaction (music ''play'' ''https://youtu.be/c''))]"

text \<open>A session whose two songs have no stream yet.\<close>

definition unbuffered_server :: server where
  "unbuffered_server =
     \<lparr>connection = 0, player = \<lparr>resource = None, idle_once = 0, error_once = 0\<rparr>,
      songs = [\<lparr>title = ''a'', url = ''u1'', buffer = None\<rparr>,
               \<lparr>title = ''b'', url = ''u2'', buffer = None\<rparr>],
      playProcess = None\<rparr>"

definition two_unbuffered :: world where
  "two_unbuffered = initial\<lparr>queues := [''g'' \<mapsto> unbuffered_server], next_conn := 1\<rparr>"

text \<open>A session playing its only song, and the song a second request for the same guild
  would add.\<close>

definition playing_server :: server where
  "playing_server =
     \<lparr>connection = 0,
      player = \<lparr>resource = Some 1, idle_once = 1, error_once = 1\<rparr>,
      songs = [\<lparr>title = ''https://youtu.be/a'', url = ''https://youtu.be/a'',
                buffer = Some \<lparr>proc = \<lparr>ytdlp = 0, ffmpeg = 1\<rparr>, stream = 1\<rparr>\<rparr>],
      playProcess = Some \<lparr>ytdlp = 0, ffmpeg = 1\<rparr>\<rparr>"

definition one_playing :: world where
  "one_playing = initial\<lparr>queues := [''g'' \<mapsto> playing_server], next_pid := 2, next_conn := 1\<rparr>"

definition second_song :: song where
  "second_song =
     \<lparr>title = ''https://youtu.be/b'', url = ''https://youtu.be/b'',
      buffer = Some \<lparr>proc = \<lparr>ytdlp = 2, ffmpeg = 3\<rparr>, stream = 3\<rparr>\<rparr>"

text \<open>Three songs are queued, the first one ends, the second one fails while playing.\<close>

definition orphan_run :: "(env \<times> input) list" where
  "orphan_run =
     three_queued @ [(env_long, PlayerIdle ''g''), (env_long, PlayerError ''g'' enoent)]"

text \<open>Three songs are queued and the first one ends; then the second one either ends
  too, or fails while playing.\<close>

definition first_ended :: "(env \<times> input) list" where
  "first_ended = three_queued @ [(env_long, PlayerIdle ''g'')]"

definition second_ended :: "(env \<times> input) list" where
  "second_ended = first_ended @ [(env_long, PlayerIdle ''g'')]"

definition second_failed :: "(env \<times> input) list" where
  "second_failed = first_ended @ [(env_long, PlayerError ''g'' enoent)]"

section \<open>Facts about the buffering wait\<close>

lemma run_Nil [simp]: "run lim p [] = p"
  by (simp add: run_def)

lemma run_Cons [simp]: "run lim p (ev # evs) = run lim (deliver lim ev p) evs"
  by (simp add: run_def)

lemma run_append: "run lim p (xs @ ys) = run lim (run lim p xs) ys"
  by (simp add: run_def)

lemma poll_keeps_pending:
  assumes "promise p = Pending" and "buffered p < lim"
  shows "promise (deliver lim Timer p) = Pending \<and> buffered (deliver lim Timer p) = buffered p"
  using assms by (simp add: deliver_def check_def)

lemma poll_forever:
  "promise p = Pending \<Longrightarrow> buffered p < lim \<Longrightarrow>
   promise (run lim p (replicate n Timer)) = Pending"
proof (induction n arbitrary: p)
  case 0
  then show ?case by simp
next
  case (Suc n)
  have "promise (deliver lim Timer p) = Pending" "buffered (deliver lim Timer p) < lim"
    using poll_keeps_pending [OF Suc.prems] Suc.prems by simp_all
  then show ?case using Suc.IH by simp
qed

lemma poll_resolves:
  "promise p = Pending \<Longrightarrow> timer_armed p \<Longrightarrow> lim \<le> buffered p \<Longrightarrow>
   promise (run lim p [Timer]) = Resolved"
  by (simp add: deliver_def check_def resolve_def)

lemma settled_stays: "promise p \<noteq> Pending \<Longrightarrow> promise (deliver lim ev p) = promise p"
  by (cases ev) (simp_all add: deliver_def on_data_def on_end_def reject_def check_def resolve_def)

lemma run_settled_stays: "promise p \<noteq> Pending \<Longrightarrow> promise (run lim p evs) = promise p"
  by (induction evs arbitrary: p) (simp_all add: settled_stays)

lemma await_after_pending_prefix:
  "promise (run lim p pre) = Pending \<Longrightarrow>
   await_promise lim p (pre @ rest) = await_promise lim (run lim p pre) rest"
proof (induction pre arbitrary: p)
  case Nil
  then show ?case by simp
next
  case (Cons ev pre)
  have "promise p = Pending"
  proof (rule ccontr)
    assume "promise p \<noteq> Pending"
    then have "promise (run lim p (ev # pre)) = promise p" by (rule run_settled_stays)
    with Cons.prems \<open>promise p \<noteq> Pending\<close> show False by simp
  qed
  moreover have "promise (run lim (deliver lim ev p) pre) = Pending"
    using Cons.prems by simp
  ultimately show ?case using Cons.IH by simp
qed

lemma await_error_event:
  assumes "promise p = Pending" and "ev = FfmpegError err \<or> ev = YtdlpError err"
  shows "fst (await_promise lim p (ev # post)) = Rejects err"
proof -
  have "promise (deliver lim ev p) = Rejected err"
    using assms by (auto simp add: deliver_def reject_def)
  then show ?thesis using assms(1) by (cases post) simp_all
qed

lemma fst_createBufferedStream:
  "fst (createBufferedStream e u mb w) =
     (case fst (await_promise (bufferLimit mb) (start (bufferLimit mb)) (trace_of e u)) of
        Resolves \<Rightarrow> Returns \<lparr>proc = \<lparr>ytdlp = next_pid w, ffmpeg = next_pid w + 1\<rparr>, stream = next_pid w + 1\<rparr>
      | Rejects err \<Rightarrow> Throws err
      | Hangs \<Rightarrow> NeverSettles)"
  by (simp add: createBufferedStream_def Let_def split: prod.splits settle.splits)

lemma createBufferedStream_failing:
  assumes "start_error e u = Some err"
  shows "createBufferedStream e u 5 w
           = (Throws err, w\<lparr>next_pid := next_pid w + 2, console := console w @ [LogSpawning u]\<rparr>)"
proof -
  obtain r p where rp: "await_promise (bufferLimit 5) (start (bufferLimit 5)) (trace_of e u) = (r, p)"
    by (cases "await_promise (bufferLimit 5) (start (bufferLimit 5)) (trace_of e u)")
  then have "r = Rejects err"
    using assms by (simp add: start_error_def split: settle.splits)
  then show ?thesis using rp by (simp add: createBufferedStream_def Let_def)
qed

lemma createBufferedStream_frame:
  assumes "createBufferedStream e u mb w = (r, w1)"
  shows "queues w1 = queues w \<and> killed w1 = killed w \<and> destroyed w1 = destroyed w
         \<and> immediates w1 = immediates w \<and> next_conn w1 = next_conn w"
  using assms
  by (auto simp add: createBufferedStream_def Let_def split: prod.splits settle.splits)

lemma createBufferedStream_pid:
  assumes "createBufferedStream e u mb w = (r, w1)"
  shows "next_pid w1 = next_pid w + 2 \<and> (\<forall>a. r = Returns a \<longrightarrow> ytdlp (proc a) = next_pid w)"
  using assms
  by (auto simp add: createBufferedStream_def Let_def split: prod.splits settle.splits)

section \<open>Facts about \<open>playSong\<close>, the listeners and the handler\<close>

lemma playSong_no_server:
  assumes "queues w g = None"
  shows "playSong e g w = (Returns (), w\<lparr>queues := (queues w)(g := None)\<rparr>)"
  by (subst playSong.simps) (simp add: assms)

lemma playSong_empty_queue:
  assumes "queues w g = Some srv" and "songs srv = []"
  shows "playSong e g w =
           (Returns (), w\<lparr>destroyed := insert (connection srv) (destroyed w),
                           queues := (queues w)(g := None)\<rparr>)"
  by (subst playSong.simps) (simp add: assms)

lemma playSong_buffered_head:
  assumes "queues w g = Some srv" and "songs srv = sng # rest" and "buffer sng = Some a"
  shows "playSong e g w =
           (Returns (), start_playback g srv sng rest a
                          (w\<lparr>console := console w @ [LogStarting (title sng) (url sng)]\<rparr>))"
  by (subst playSong.simps) (simp add: assms Let_def)

lemma playSong_failing_head:
  assumes "queues w g = Some srv" and "songs srv = sng # rest"
    and "buffer sng = None" and "start_error e (url sng) = Some err"
  shows "playSong e g w =
           playSong e g
             (w\<lparr>next_pid := next_pid w + 2,
                console := console w @ [LogStarting (title sng) (url sng), LogSpawning (url sng), LogFailedCreate err],
                queues := (queues w)(g \<mapsto> srv\<lparr>songs := rest\<rparr>)\<rparr>)"
  by (subst playSong.simps) (simp add: assms createBufferedStream_failing Let_def)

lemma on_idle_songs:
  "map_option songs (queues (on_idle g w) g) = map_option (\<lambda>s. tl (songs s)) (queues w g)"
  by (simp add: on_idle_def split: option.splits)

lemma on_error_songs:
  "map_option songs (queues (on_error g err w) g) = map_option (\<lambda>s. tl (songs s)) (queues w g)"
  by (simp add: on_error_def Let_def split: option.splits)

lemma on_idle_funpow_songs:
  "map_option songs (queues ((on_idle g ^^ n) w) g) = map_option (\<lambda>s. drop n (songs s)) (queues w g)"
proof (induction n)
  case 0
  then show ?case by (simp add: option.map_ident)
next
  case (Suc n)
  have "map_option songs (queues ((on_idle g ^^ Suc n) w) g)
          = map_option tl (map_option songs (queues ((on_idle g ^^ n) w) g))"
    by (simp add: on_idle_songs option.map_comp comp_def)
  also have "\<dots> = map_option tl (map_option (\<lambda>s. drop n (songs s)) (queues w g))"
    by (simp only: Suc.IH)
  also have "\<dots> = map_option (\<lambda>s. drop (Suc n) (songs s)) (queues w g)"
    by (simp add: option.map_comp comp_def drop_Suc tl_drop)
  finally show ?case .
qed

lemma on_error_funpow_songs:
  "map_option songs (queues ((on_error g err ^^ n) w) g) = map_option (\<lambda>s. drop n (songs s)) (queues w g)"
proof (induction n)
  case 0
  then show ?case by (simp add: option.map_ident)
next
  case (Suc n)
  have "map_option songs (queues ((on_error g err ^^ Suc n) w) g)
          = map_option tl (map_option songs (queues ((on_error g err ^^ n) w) g))"
    by (simp add: on_error_songs option.map_comp comp_def)
  also have "\<dots> = map_option tl (map_option (\<lambda>s. drop n (songs s)) (queues w g))"
    by (simp only: Suc.IH)
  also have "\<dots> = map_option (\<lambda>s. drop (Suc n) (songs s)) (queues w g)"
    by (simp add: option.map_comp comp_def drop_Suc tl_drop)
  finally show ?case .
qed

lemma prebuffer_frame:
  assumes "prebuffer e sng w = (r, w1)"
  shows "queues w1 = queues w \<and> killed w1 = killed w \<and> destroyed w1 = destroyed w
         \<and> immediates w1 = immediates w \<and> next_conn w1 = next_conn w"
proof -
  obtain r0 w0 where c: "createBufferedStream e (url sng) 5 w = (r0, w0)"
    by (cases "createBufferedStream e (url sng) 5 w")
  from createBufferedStream_frame [OF c] assms c show ?thesis
    by (cases r0) (auto simp add: prebuffer_def)
qed

lemma resolve_song_frame:
  assumes "resolve_song e q w = (r, w1)"
  shows "queues w1 = queues w \<and> killed w1 = killed w \<and> destroyed w1 = destroyed w
         \<and> immediates w1 = immediates w \<and> next_conn w1 = next_conn w"
  using assms
  by (auto simp add: resolve_song_def split: if_splits search_result.splits option.splits list.splits
      dest: prebuffer_frame)

lemma prebuffer_reply:
  assumes "prebuffer e sng w = (Returns (Inl r), w1)"
  shows "r = FailedToResolve"
  using assms
  by (auto simp add: prebuffer_def split: prod.splits awaited.splits)

lemma prebuffer_success:
  assumes "createBufferedStream e (url sng) 5 w = (Returns a, w1)"
  shows "prebuffer e sng w = (Returns (Inr (sng\<lparr>buffer := Some a\<rparr>)), w1)"
  using assms by (simp add: prebuffer_def)

lemma enqueue_reply:
  "fst (enqueue e g sng w) \<noteq> Returns (Some NoResultsFound)"
  by (auto simp add: enqueue_def Let_def split: option.splits prod.splits awaited.splits)

lemma enqueue_last_song:
  assumes "buffer sng = Some a"
  shows "\<exists>srv'. queues (snd (enqueue e g sng w)) g = Some srv' \<and> songs srv' \<noteq> []
                 \<and> last (songs srv') = sng"
proof (cases "queues w g")
  case None
  let ?srv = "\<lparr>connection = next_conn w,
               player = \<lparr>resource = None, idle_once = 0, error_once = 0\<rparr>,
               songs = [sng], playProcess = None\<rparr>"
  let ?w1 = "w\<lparr>next_conn := next_conn w + 1, queues := (queues w)(g \<mapsto> ?srv)\<rparr>"
  have "playSong e g ?w1 =
          (Returns (), start_playback g ?srv sng [] a
                         (?w1\<lparr>console := console ?w1 @ [LogStarting (title sng) (url sng)]\<rparr>))"
    by (rule playSong_buffered_head) (simp_all add: assms)
  then show ?thesis
    using None assms by (simp add: enqueue_def Let_def start_playback_def)
next
  case (Some srv)
  then show ?thesis by (simp add: enqueue_def)
qed

section \<open>Rules for evaluating runs on given inputs\<close>

lemmas link_test = isUrl_def lit_def opt_def alt_def List.map_filter_simps lower_def

lemmas wait_defs = start_def check_def deliver_def on_data_def on_end_def resolve_def reject_def
  bufferLimit_def

lemmas bot_defs = run_bot_def step_def handler_def music_def resolve_song_def prebuffer_def
  createBufferedStream_def Let_def enqueue_def start_playback_def title_or_def initial_def
  env_long_def long_stream_def

lemma funpow_two: "(f ^^ 2) x = f (f x)"
  by (simp add: numeral_2_eq_2)

lemmas event_defs = emit_idle_def emit_error_def on_idle_def on_error_def run_immediates_def
  kill_pair_def funpow_two playSong_no_server playSong_empty_queue

lemmas sample_defs = one_playing_def playing_server_def second_song_def

section \<open>C1: a stream that ends below the limit\<close>

text \<open>
  C1 (evaluated at a failing input). The claim asks the wait to resolve when the
  transcoder signals the end of a stream shorter than the limit. The \<open>end\<close> callback only
  ends the pass-through stream; \<open>check\<close> looks at the byte counter alone. For a stream
  of 1000 bytes followed by \<open>end\<close> the promise is still pending after any number of
  further polls, and \<open>createBufferedStream\<close> never settles.
\<close>

theorem C1_short_stream_never_resolves:
  "promise (run (bufferLimit 5) (start (bufferLimit 5)) (short_stream @ replicate n Timer)) = Pending
   \<and> fst (createBufferedStream env_short u 5 w) = NeverSettles"
proof -
  let ?p = "run (bufferLimit 5) (start (bufferLimit 5)) short_stream"
  have p: "promise ?p = Pending" "buffered ?p = 1000"
    by (simp_all add: short_stream_def start_def check_def deliver_def on_data_def on_end_def bufferLimit_def)
  have "buffered ?p < bufferLimit 5" using p(2) by (simp add: bufferLimit_def)
  then have "promise (run (bufferLimit 5) ?p (replicate n Timer)) = Pending"
    using p(1) by (simp add: poll_forever)
  moreover have "fst (await_promise (bufferLimit 5) (start (bufferLimit 5)) short_stream) = Hangs"
    by (simp add: short_stream_def start_def check_def deliver_def on_data_def on_end_def bufferLimit_def)
  ultimately show ?thesis
    by (simp add: run_append fst_createBufferedStream env_short_def)
qed

section \<open>C2: which songs own processes\<close>

text \<open>
  C2 (counterexample). The claim lets only the head own a process pair. The \<open>play\<close>
  command pre-buffers every song before it enqueues it (line 197): with three songs
  queued, the second and the third own the pairs 2, 3 and 4, 5, which have been spawned
  and not killed, while the pair bound to the session is the head's.
\<close>

theorem C2_queued_songs_own_processes:
  "map_option songs (queues (run_bot three_queued) ''g'') =
     Some [\<lparr>title = ''https://youtu.be/a'', url = ''https://youtu.be/a'',
                     buffer = Some \<lparr>proc = \<lparr>ytdlp = 0, ffmpeg = 1\<rparr>, stream = 1\<rparr>\<rparr>,
                    \<lparr>title = ''https://youtu.be/b'', url = ''https://youtu.be/b'',
                     buffer = Some \<lparr>proc = \<lparr>ytdlp = 2, ffmpeg = 3\<rparr>, stream = 3\<rparr>\<rparr>,
                    \<lparr>title = ''https://youtu.be/c'', url = ''https://youtu.be/c'',
                     buffer = Some \<lparr>proc = \<lparr>ytdlp = 4, ffmpeg = 5\<rparr>, stream = 5\<rparr>\<rparr>]
   \<and> map_option playProcess (queues (run_bot three_queued) ''g'') = Some (Some \<lparr>ytdlp = 0, ffmpeg = 1\<rparr>)
   \<and> 2 \<notin> killed (run_bot three_queued) \<and> 3 \<notin> killed (run_bot three_queued)
   \<and> 4 \<notin> killed (run_bot three_queued) \<and> 5 \<notin> killed (run_bot three_queued)
   \<and> next_pid (run_bot three_queued) = 6"
  by (simp add: three_queued_def bot_defs link_test wait_defs playSong_buffered_head)

text \<open>The invariant, one kind of turn at a time.\<close>

lemma queued_mono: "queued n xs \<Longrightarrow> n \<le> m \<Longrightarrow> queued m xs"
  by (fastforce simp add: queued_def)

lemma session_ok_mono: "session_ok n srv \<Longrightarrow> n \<le> m \<Longrightarrow> session_ok m srv"
  by (auto simp add: session_ok_def dest: queued_mono)

lemma queued_drop: "queued n xs \<Longrightarrow> queued n (drop k xs)"
  by (auto simp add: queued_def distinct_drop drop_map [symmetric] dest: in_set_dropD)

lemma session_ok_head_bound:
  assumes "session_ok n srv"
  shows "head_bound srv"
proof -
  obtain s rest where sr: "songs srv = s # rest"
    using assms by (cases "songs srv") (simp_all add: session_ok_def)
  have q: "queued n (s # rest)" and pp: "playProcess srv = pair_of s"
    using assms sr by (simp_all add: session_ok_def)
  have "pair_of s \<noteq> None" using q by (auto simp add: queued_def pair_of_def)
  moreover have "\<forall>x \<in> set rest. pair_of x \<noteq> None"
    using q by (auto simp add: queued_def pair_of_def)
  moreover have "\<forall>x \<in> set rest. pair_of x \<noteq> pair_of s"
    using q by (auto simp add: queued_def image_iff)
  ultimately show ?thesis using sr pp by (simp add: head_bound_def)
qed

lemma song_buffer_same: "buffer s = Some a \<Longrightarrow> s\<lparr>buffer := Some a\<rparr> = s"
  by (cases s) simp

lemma playSong_queued:
  assumes others: "\<forall>g' srv. g' \<noteq> g \<longrightarrow> queues w g' = Some srv \<longrightarrow> session_ok (next_pid w) srv"
    and mine: "\<forall>srv. queues w g = Some srv \<longrightarrow> queued (next_pid w) (songs srv)"
  shows "sessions_ok (snd (playSong e g w)) \<and> immediates (snd (playSong e g w)) = immediates w"
proof (cases "queues w g")
  case None
  then show ?thesis
    using others by (simp add: playSong_no_server sessions_ok_def)
next
  case (Some srv)
  show ?thesis
  proof (cases "songs srv")
    case Nil
    then show ?thesis
      using Some others by (simp add: playSong_empty_queue sessions_ok_def)
  next
    case (Cons sng rest)
    have q: "queued (next_pid w) (sng # rest)" using mine Some Cons by simp
    then obtain a where a: "buffer sng = Some a" by (auto simp add: queued_def)
    have "session_ok (next_pid w)
            (srv\<lparr>songs := sng # rest,
                 player := \<lparr>resource = Some (stream a), idle_once = idle_once (player srv) + 1,
                            error_once = error_once (player srv) + 1\<rparr>,
                 playProcess := Some (proc a)\<rparr>)"
      using q a by (simp add: session_ok_def pair_of_def)
    then show ?thesis
      using Some Cons a others
      by (simp add: playSong_buffered_head [OF Some Cons a] start_playback_def sessions_ok_def
          song_buffer_same)
  qed
qed

lemma playSong_sessions_ok:
  assumes "sessions_ok w"
  shows "sessions_ok (snd (playSong e g w)) \<and> immediates (snd (playSong e g w)) = immediates w"
  using assms by (intro playSong_queued) (auto simp add: sessions_ok_def session_ok_def)

lemma run_tasks_sessions_ok:
  "sessions_ok w \<Longrightarrow> sessions_ok (foldl (\<lambda>v g. snd (playSong e g v)) w gs)
     \<and> immediates (foldl (\<lambda>v g. snd (playSong e g v)) w gs) = immediates w"
proof (induction gs arbitrary: w)
  case Nil
  then show ?case by simp
next
  case (Cons g gs)
  then show ?case using playSong_sessions_ok [OF Cons.prems, of e g] by simp
qed

text \<open>The listeners fired by one event.\<close>

lemma on_idle_step:
  assumes "queues v g = Some s"
  shows "queues (on_idle g v) = (queues v)(g \<mapsto> s\<lparr>songs := tl (songs s)\<rparr>)
         \<and> next_pid (on_idle g v) = next_pid v
         \<and> immediates (on_idle g v) = immediates v @ [g]"
  using assms by (simp add: on_idle_def)

lemma on_error_step:
  assumes "queues v g = Some s"
  shows "queues (on_error g err v) = (queues v)(g \<mapsto> s\<lparr>songs := tl (songs s)\<rparr>)
         \<and> next_pid (on_error g err v) = next_pid v
         \<and> immediates (on_error g err v) = immediates v @ [g]"
  using assms by (simp add: on_error_def Let_def)

lemma on_idle_funpow:
  assumes "queues w g = Some srv"
  shows "queues ((on_idle g ^^ k) w) = (queues w)(g \<mapsto> srv\<lparr>songs := drop k (songs srv)\<rparr>)
         \<and> next_pid ((on_idle g ^^ k) w) = next_pid w
         \<and> immediates ((on_idle g ^^ k) w) = immediates w @ replicate k g"
proof (induction k)
  case 0
  have "(queues w)(g \<mapsto> srv) = queues w" using assms by (simp add: map_upd_triv)
  then show ?case by simp
next
  case (Suc k)
  let ?v = "(on_idle g ^^ k) w"
  have "queues ?v g = Some (srv\<lparr>songs := drop k (songs srv)\<rparr>)" using Suc by simp
  from on_idle_step [OF this] Suc show ?case
    by (auto simp add: drop_Suc tl_drop replicate_append_same fun_eq_iff)
qed

lemma on_error_funpow:
  assumes "queues w g = Some srv"
  shows "queues ((on_error g err ^^ k) w) = (queues w)(g \<mapsto> srv\<lparr>songs := drop k (songs srv)\<rparr>)
         \<and> next_pid ((on_error g err ^^ k) w) = next_pid w
         \<and> immediates ((on_error g err ^^ k) w) = immediates w @ replicate k g"
proof (induction k)
  case 0
  have "(queues w)(g \<mapsto> srv) = queues w" using assms by (simp add: map_upd_triv)
  then show ?case by simp
next
  case (Suc k)
  let ?v = "(on_error g err ^^ k) w"
  have "queues ?v g = Some (srv\<lparr>songs := drop k (songs srv)\<rparr>)" using Suc by simp
  from on_error_step [OF this, of err] Suc show ?case
    by (auto simp add: drop_Suc tl_drop replicate_append_same fun_eq_iff)
qed

lemma advance_settled:
  assumes inv: "settled w" and q: "queues w g = Some srv"
    and W: "queues W = (queues w)(g \<mapsto> srv')" "songs srv' = drop k (songs srv)"
      "playProcess srv' = playProcess srv" "next_pid W = next_pid w" "immediates W = replicate k g"
  shows "settled (run_immediates e W)"
proof -
  let ?W = "W\<lparr>immediates := []\<rparr>"
  have ok: "session_ok (next_pid w) srv" using inv q by (simp add: settled_def sessions_ok_def)
  have others: "\<forall>g' s. g' \<noteq> g \<longrightarrow> queues ?W g' = Some s \<longrightarrow> session_ok (next_pid ?W) s"
    using inv W(1,4) by (simp add: settled_def sessions_ok_def)
  have mine: "\<forall>s. queues ?W g = Some s \<longrightarrow> queued (next_pid ?W) (songs s)"
    using ok W(1,2,4) by (simp add: session_ok_def queued_drop)
  have run: "run_immediates e W = foldl (\<lambda>v g. snd (playSong e g v)) ?W (replicate k g)"
    by (simp add: run_immediates_def W(5))
  show ?thesis
  proof (cases k)
    case 0
    have "session_ok (next_pid w) srv'"
      using ok W(2,3) 0 by (simp add: session_ok_def)
    then have "sessions_ok ?W"
      using others W(1,4) by (auto simp add: sessions_ok_def)
    then show ?thesis using run 0 by (simp add: settled_def)
  next
    case (Suc k')
    have first: "sessions_ok (snd (playSong e g ?W))" "immediates (snd (playSong e g ?W)) = []"
      using playSong_queued [OF others mine, of e] by simp_all
    show ?thesis
      using run Suc run_tasks_sessions_ok [OF first(1), of e "replicate k' g"] first(2)
      by (simp add: settled_def)
  qed
qed

lemma emit_idle_settled:
  assumes "settled w"
  shows "settled (run_immediates e (emit_idle g w))"
proof (cases "queues w g")
  case None
  then show ?thesis
    using assms by (simp add: emit_idle_def run_immediates_def settled_def sessions_ok_def)
next
  case (Some srv)
  let ?srv0 = "srv\<lparr>player := (player srv)\<lparr>idle_once := 0\<rparr>\<rparr>"
  let ?w0 = "w\<lparr>queues := (queues w)(g \<mapsto> ?srv0)\<rparr>"
  let ?k = "idle_once (player srv)"
  have q0: "queues ?w0 g = Some ?srv0" by simp
  have e: "emit_idle g w = (on_idle g ^^ ?k) ?w0" using Some by (simp add: emit_idle_def)
  show ?thesis
    unfolding e
    by (rule advance_settled [OF assms Some, where srv' = "?srv0\<lparr>songs := drop ?k (songs ?srv0)\<rparr>" and k = ?k])
       (use on_idle_funpow [OF q0, of ?k] assms in \<open>simp_all add: settled_def\<close>)
qed

lemma emit_error_settled:
  assumes "settled w"
  shows "settled (run_immediates e (emit_error g err w))"
proof (cases "queues w g")
  case None
  then show ?thesis
    using assms by (simp add: emit_error_def run_immediates_def settled_def sessions_ok_def)
next
  case (Some srv)
  let ?srv0 = "srv\<lparr>player := (player srv)\<lparr>error_once := 0\<rparr>\<rparr>"
  let ?w0 = "w\<lparr>queues := (queues w)(g \<mapsto> ?srv0)\<rparr>"
  let ?k = "error_once (player srv)"
  have q0: "queues ?w0 g = Some ?srv0" by simp
  have e: "emit_error g err w = (on_error g err ^^ ?k) ?w0" using Some by (simp add: emit_error_def)
  show ?thesis
    unfolding e
    by (rule advance_settled [OF assms Some, where srv' = "?srv0\<lparr>songs := drop ?k (songs ?srv0)\<rparr>" and k = ?k])
       (use on_error_funpow [OF q0, of ?k err] assms in \<open>simp_all add: settled_def\<close>)
qed

text \<open>Commands.\<close>

lemma prebuffer_pid:
  assumes "prebuffer e sng w = (r, w1)"
  shows "next_pid w1 = next_pid w + 2
         \<and> (\<forall>s. r = Returns (Inr s) \<longrightarrow> (\<exists>a. buffer s = Some a \<and> ytdlp (proc a) = next_pid w))"
proof -
  obtain r0 w0 where c: "createBufferedStream e (url sng) 5 w = (r0, w0)"
    by (cases "createBufferedStream e (url sng) 5 w")
  from createBufferedStream_pid [OF c] assms c show ?thesis
    by (cases r0) (auto simp add: prebuffer_def)
qed

lemma resolve_song_pid:
  assumes "resolve_song e q w = (r, w1)"
  shows "next_pid w \<le> next_pid w1
         \<and> (\<forall>s. r = Returns (Inr s) \<longrightarrow>
               (\<exists>a. buffer s = Some a \<and> ytdlp (proc a) = next_pid w \<and> next_pid w < next_pid w1))"
  using assms
  by (auto simp add: resolve_song_def split: if_splits search_result.splits option.splits list.splits
      dest!: prebuffer_pid)

lemma sessions_ok_later:
  assumes "sessions_ok w" and "queues w1 = queues w" and "next_pid w \<le> next_pid w1"
  shows "sessions_ok w1"
  using assms by (auto simp add: sessions_ok_def intro: session_ok_mono)

lemma queued_snoc:
  assumes "queued n xs" and "buffer s = Some a" and "n \<le> ytdlp (proc a)" and "ytdlp (proc a) < m"
  shows "queued m (xs @ [s])"
proof -
  have "pair_of s \<notin> set (map pair_of xs)"
  proof
    assume "pair_of s \<in> set (map pair_of xs)"
    then obtain x where x: "x \<in> set xs" "pair_of x = pair_of s" by auto
    then obtain b where b: "buffer x = Some b" "ytdlp (proc b) < n"
      using assms(1) by (auto simp add: queued_def)
    then have "proc b = proc a" using x(2) assms(2) by (simp add: pair_of_def)
    then show False using b(2) assms(3) by simp
  qed
  moreover have "\<forall>x \<in> set xs. \<exists>b. buffer x = Some b \<and> ytdlp (proc b) < m"
    using assms(1,3,4) by (fastforce simp add: queued_def)
  ultimately show ?thesis using assms(1,2,4) by (simp add: queued_def)
qed

lemma enqueue_settled:
  assumes inv: "settled w" and fr: "queues w1 = queues w" "immediates w1 = immediates w"
    and sng: "buffer sng = Some a" "next_pid w \<le> ytdlp (proc a)" "ytdlp (proc a) < next_pid w1"
  shows "settled (snd (enqueue e g sng w1))"
proof (cases "queues w1 g")
  case None
  let ?srv = "\<lparr>connection = next_conn w1,
               player = \<lparr>resource = None, idle_once = 0, error_once = 0\<rparr>,
               songs = [sng], playProcess = None\<rparr>"
  let ?v = "w1\<lparr>next_conn := next_conn w1 + 1, queues := (queues w1)(g \<mapsto> ?srv)\<rparr>"
  have le: "next_pid w \<le> next_pid w1" using sng(2,3) by simp
  have ok1: "sessions_ok w1"
    using inv fr(1) le by (auto simp add: settled_def intro: sessions_ok_later)
  have others: "\<forall>g' s. g' \<noteq> g \<longrightarrow> queues ?v g' = Some s \<longrightarrow> session_ok (next_pid ?v) s"
    using ok1 by (simp add: sessions_ok_def)
  have mine: "\<forall>s. queues ?v g = Some s \<longrightarrow> queued (next_pid ?v) (songs s)"
    using sng(1,3) by (simp add: queued_def)
  obtain r v2 where p: "playSong e g ?v = (r, v2)" by (cases "playSong e g ?v")
  have v2: "sessions_ok v2" "immediates v2 = []"
    using playSong_queued [OF others mine, of e] p inv fr(2) by (simp_all add: settled_def)
  have "sessions_ok (v2\<lparr>console := console v2 @ [l], queues := (queues v2)(g := None),
                        destroyed := insert c (destroyed v2)\<rparr>)" for l c
    using v2(1) by (simp add: sessions_ok_def)
  then show ?thesis
    using None p v2 by (cases r) (simp_all add: enqueue_def Let_def settled_def)
next
  case (Some srv)
  have ok: "session_ok (next_pid w) srv"
    using inv fr(1) Some by (simp add: settled_def sessions_ok_def)
  have le: "next_pid w \<le> next_pid w1" using sng(2,3) by simp
  have "session_ok (next_pid w1) (srv\<lparr>songs := songs srv @ [sng]\<rparr>)"
    using ok queued_snoc [OF _ sng, of "songs srv"] by (simp add: session_ok_def)
  moreover have "sessions_ok w1"
    using inv fr(1) le by (auto simp add: settled_def intro: sessions_ok_later)
  ultimately show ?thesis
    using Some inv fr(2) by (simp add: enqueue_def settled_def sessions_ok_def)
qed

lemma handler_settled:
  assumes "settled w"
  shows "settled (snd (handler e i w))"
proof (cases "isChatInputCommand i \<and> commandName i = ''music'' \<and> subcommand i = ''play''
              \<and> voiceChannel i \<noteq> None")
  case False
  then show ?thesis
    using assms by (auto simp add: handler_def split: option.splits sum.splits)
next
  case True
  obtain r w1 where rs: "resolve_song e (query i) w = (r, w1)"
    by (cases "resolve_song e (query i) w")
  have fr: "queues w1 = queues w" "immediates w1 = immediates w"
    using resolve_song_frame [OF rs] by simp_all
  have le: "next_pid w \<le> next_pid w1" using resolve_song_pid [OF rs] by simp
  have w1: "settled w1"
    using assms fr le by (auto simp add: settled_def intro: sessions_ok_later)
  show ?thesis
  proof (cases r)
    case (Returns x)
    show ?thesis
    proof (cases x)
      case (Inl rep)
      then show ?thesis using True rs Returns w1 by (auto simp add: handler_def)
    next
      case (Inr sng)
      then obtain a where a: "buffer sng = Some a" "ytdlp (proc a) = next_pid w"
        "next_pid w < next_pid w1"
        using resolve_song_pid [OF rs] Returns by auto
      have "settled (snd (enqueue e (guildId i) sng w1))"
        using enqueue_settled [OF assms fr a(1)] a(2,3) by simp
      then show ?thesis using True rs Returns Inr by (auto simp add: handler_def)
    qed
  next
    case (Throws err)
    then show ?thesis using True rs w1 by (auto simp add: handler_def)
  next
    case NeverSettles
    then show ?thesis using True rs w1 by (auto simp add: handler_def)
  qed
qed

lemma step_settled: "settled w \<Longrightarrow> settled (step w ei)"
  by (cases ei; cases "snd ei")
     (auto simp add: step_def handler_settled emit_idle_settled emit_error_settled)

lemma steps_settled: "settled w \<Longrightarrow> settled (foldl step w inputs)"
  by (induction inputs arbitrary: w) (simp_all add: step_settled)

lemma initial_settled: "settled initial"
  by (simp add: settled_def sessions_ok_def initial_def)

text \<open>
  C2 (amended). In every state the bot reaches from its start by commands and player
  events, each session has a non-empty queue and is bound, in \<open>playProcess\<close>, to the
  pair of its head song and of no other song. The songs behind the head are not bound,
  but each owns a pair of its own, spawned when it was enqueued.
\<close>

theorem C2_only_the_head_is_bound:
  assumes "queues (run_bot inputs) g = Some srv"
  shows "head_bound srv"
proof -
  have "settled (run_bot inputs)"
    unfolding run_bot_def by (rule steps_settled [OF initial_settled])
  then have "session_ok (next_pid (run_bot inputs)) srv"
    using assms by (simp add: settled_def sessions_ok_def)
  then show ?thesis by (rule session_ok_head_bound)
qed

text \<open>Witness for C2 (amended): the session with three songs queued.\<close>

theorem C2_only_the_head_is_bound_witness:
  "queues (run_bot three_queued) ''g'' \<noteq> None
   \<and> head_bound (the (queues (run_bot three_queued) ''g''))
   \<and> map_option (\<lambda>srv. map pair_of (songs srv)) (queues (run_bot three_queued) ''g'')
       = Some [Some \<lparr>ytdlp = 0, ffmpeg = 1\<rparr>, Some \<lparr>ytdlp = 2, ffmpeg = 3\<rparr>,
               Some \<lparr>ytdlp = 4, ffmpeg = 5\<rparr>]"
proof -
  have q: "queues (run_bot three_queued) ''g'' \<noteq> None"
    by (simp add: three_queued_def bot_defs link_test wait_defs playSong_buffered_head)
  then obtain srv where s: "queues (run_bot three_queued) ''g'' = Some srv" by auto
  have p: "map_option (\<lambda>srv. map pair_of (songs srv)) (queues (run_bot three_queued) ''g'')
       = Some [Some \<lparr>ytdlp = 0, ffmpeg = 1\<rparr>, Some \<lparr>ytdlp = 2, ffmpeg = 3\<rparr>,
               Some \<lparr>ytdlp = 4, ffmpeg = 5\<rparr>]"
    by (simp add: three_queued_def bot_defs link_test wait_defs playSong_buffered_head pair_of_def)
  show ?thesis
    using C2_only_the_head_is_bound [OF s] s q p by simp
qed

section \<open>C3: a queue of songs that all fail to start\<close>

text \<open>
  C3. When no song of the queue has a stream yet and the pipeline of each fails to start
  (\<open>createBufferedStream\<close> rejects), \<open>playSong\<close> returns: it has made one attempt per
  song, in queue order (two processes spawned and three console lines each), every
  failure having removed the head and retried on the rest (\<open>playSong_failing_head\<close>), and
  it ends by destroying the connection and deleting the guild's entry.
\<close>

theorem C3_all_failing_queue_is_emptied:
  assumes "queues w g = Some srv"
    and "\<forall>s \<in> set (songs srv). buffer s = None \<and> start_error e (url s) \<noteq> None"
  shows "playSong e g w =
           (Returns (),
            w\<lparr>next_pid := next_pid w + 2 * length (songs srv),
              console := console w @ concat (map (failure_log e) (songs srv)),
              destroyed := insert (connection srv) (destroyed w),
              queues := (queues w)(g := None)\<rparr>)"
  using assms
proof (induction xs \<equiv> "songs srv" arbitrary: w srv)
  case Nil
  have "songs srv = []" using Nil.hyps by simp
  then show ?case
    using playSong_empty_queue [OF Nil.prems(1), of e] by (simp add: fun_upd_def)
next
  case (Cons sng rest)
  from Cons.hyps(2) Cons.prems(2) obtain err
    where sng: "buffer sng = None" "start_error e (url sng) = Some err"
    by (metis list.set_intros(1) not_Some_eq)
  let ?srv = "srv\<lparr>songs := rest\<rparr>"
  let ?w = "w\<lparr>next_pid := next_pid w + 2,
                console := console w @ [LogStarting (title sng) (url sng), LogSpawning (url sng), LogFailedCreate err],
                queues := (queues w)(g \<mapsto> ?srv)\<rparr>"
  have step: "playSong e g w = playSong e g ?w"
    using playSong_failing_head [OF Cons.prems(1) Cons.hyps(2)[symmetric] sng] .
  have q: "queues ?w g = Some ?srv" by simp
  have r: "rest = songs ?srv" by simp
  have all: "\<forall>s \<in> set (songs ?srv). buffer s = None \<and> start_error e (url s) \<noteq> None"
    using Cons.prems(2) Cons.hyps(2)[symmetric] by simp
  have "playSong e g ?w =
           (Returns (),
            ?w\<lparr>next_pid := next_pid ?w + 2 * length (songs ?srv),
              console := console ?w @ concat (map (failure_log e) (songs ?srv)),
              destroyed := insert (connection ?srv) (destroyed ?w),
              queues := (queues ?w)(g := None)\<rparr>)"
    using Cons.hyps(1) [OF r q all] .
  then show ?case
    using step Cons.hyps(2)[symmetric] sng by (simp add: failure_log_def)
qed

text \<open>Witness for C3: two songs without a stream, both downloads failing to spawn.\<close>

theorem C3_all_failing_queue_is_emptied_witness:
  "queues two_unbuffered ''g'' = Some unbuffered_server
   \<and> map buffer (songs unbuffered_server) = [None, None]
   \<and> map (\<lambda>s. start_error env_failing (url s)) (songs unbuffered_server) = [Some enoent, Some enoent]
   \<and> fst (playSong env_failing ''g'' two_unbuffered) = Returns ()
   \<and> queues (snd (playSong env_failing ''g'' two_unbuffered)) ''g'' = None
   \<and> next_pid (snd (playSong env_failing ''g'' two_unbuffered)) = 4
   \<and> destroyed (snd (playSong env_failing ''g'' two_unbuffered)) = {0}"
proof -
  have q: "queues two_unbuffered ''g'' = Some unbuffered_server"
    by (simp add: two_unbuffered_def)
  have f: "\<forall>s \<in> set (songs unbuffered_server). buffer s = None \<and> start_error env_failing (url s) \<noteq> None"
    by (simp add: unbuffered_server_def start_error_def env_failing_def start_def check_def
        deliver_def reject_def bufferLimit_def)
  show ?thesis
    using C3_all_failing_queue_is_emptied [OF q f] q
    by (simp add: two_unbuffered_def unbuffered_server_def initial_def start_error_def
        env_failing_def start_def check_def deliver_def reject_def bufferLimit_def)
qed

section \<open>C4: processes of a dequeued song\<close>

text \<open>
  C4 (evaluated at a failing input). Three songs are queued; the first ends, which
  fires the one \<open>Idle\<close> listener and starts the second; the second then fails while
  playing. Two \<open>error\<close> listeners are registered by then, the one of the first song never
  having fired: each kills the bound pair, the second song's, and shifts the queue. The
  third song leaves the queue with its processes 4 and 5 never killed, and the session
  is torn down.
\<close>

theorem C4_dequeued_song_keeps_its_processes:
  "map_option (\<lambda>srv. map buffer (songs srv)) (queues (run_bot three_queued) ''g'')
     = Some [Some \<lparr>proc = \<lparr>ytdlp = 0, ffmpeg = 1\<rparr>, stream = 1\<rparr>,
             Some \<lparr>proc = \<lparr>ytdlp = 2, ffmpeg = 3\<rparr>, stream = 3\<rparr>,
             Some \<lparr>proc = \<lparr>ytdlp = 4, ffmpeg = 5\<rparr>, stream = 5\<rparr>]
   \<and> queues (run_bot orphan_run) ''g'' = None
   \<and> 2 \<in> killed (run_bot orphan_run) \<and> 3 \<in> killed (run_bot orphan_run)
   \<and> 4 \<notin> killed (run_bot orphan_run) \<and> 5 \<notin> killed (run_bot orphan_run)"
  by (simp add: orphan_run_def three_queued_def bot_defs link_test wait_defs playSong_buffered_head
      event_defs enoent_def)

section \<open>C5: enqueueing on an existing session\<close>

text \<open>
  C5. When the guild has a session and the request has resolved to a song, the handler
  answers that the song was added and changes the guild's entry only by appending the
  song to \<open>songs\<close>: the order of the earlier entries, the player, the bound pair and the
  connection are those of before, and resolving the song has killed no process,
  destroyed no connection and queued no \<open>playSong\<close>.
\<close>

theorem C5_enqueue_appends_at_tail:
  assumes "isChatInputCommand i" and "commandName i = ''music''" and "subcommand i = ''play''"
    and "voiceChannel i = Some vc"
    and "resolve_song e (query i) w = (Returns (Inr sng), w1)"
    and "queues w (guildId i) = Some srv"
  shows "handler e i w =
           (Returns (Some (AddedToQueue (title sng))),
            w1\<lparr>queues := (queues w)(guildId i \<mapsto> srv\<lparr>songs := songs srv @ [sng]\<rparr>)\<rparr>)
         \<and> killed w1 = killed w \<and> destroyed w1 = destroyed w \<and> immediates w1 = immediates w"
proof -
  have fr: "queues w1 = queues w" "killed w1 = killed w" "destroyed w1 = destroyed w"
    "immediates w1 = immediates w"
    using resolve_song_frame [OF assms(5)] by simp_all
  have "enqueue e (guildId i) sng w1 =
          (Returns (Some (AddedToQueue (title sng))),
           w1\<lparr>queues := (queues w)(guildId i \<mapsto> srv\<lparr>songs := songs srv @ [sng]\<rparr>)\<rparr>)"
    using assms(6) fr(1) by (simp add: enqueue_def)
  then show ?thesis
    using assms(1-5) fr by (simp add: handler_def)
qed

text \<open>Witness for C5: a second request while the first song plays.\<close>

theorem C5_enqueue_appends_at_tail_witness:
  "queues one_playing ''g'' = Some playing_server
   \<and> fst (handler env_long (music ''play'' ''https://youtu.be/b'') one_playing)
        = Returns (Some (AddedToQueue ''https://youtu.be/b''))
   \<and> queues (snd (handler env_long (music ''play'' ''https://youtu.be/b'') one_playing)) ''g''
        = Some (playing_server\<lparr>songs := songs playing_server @ [second_song]\<rparr>)
   \<and> killed (snd (handler env_long (music ''play'' ''https://youtu.be/b'') one_playing)) = {}"
proof -
  let ?i = "music ''play'' ''https://youtu.be/b''"
  have q: "queues one_playing (guildId ?i) = Some playing_server"
    by (simp add: one_playing_def music_def)
  have r: "resolve_song env_long (query ?i) one_playing
             = (Returns (Inr second_song), snd (resolve_song env_long (query ?i) one_playing))"
    by (simp add: bot_defs link_test wait_defs sample_defs)
  have i: "isChatInputCommand ?i" "commandName ?i = ''music''" "subcommand ?i = ''play''"
    "voiceChannel ?i = Some 7"
    by (simp_all add: music_def)
  show ?thesis
    using C5_enqueue_appends_at_tail [OF i r q] q
    by (simp add: music_def second_song_def one_playing_def initial_def)
qed

section \<open>C6: advancing on completion and on error\<close>

text \<open>
  The two listeners by themselves: the \<open>error\<close> listener does what the \<open>Idle\<close> listener
  does, after one more console line, and either leaves the tail of the queue. An emitted
  \<open>Idle\<close> or \<open>error\<close> drops one song per listener fired.
\<close>

lemma listeners_alike:
  "on_error g err w = (on_idle g w)\<lparr>console := console w @ [LogPlayerError err]\<rparr>
   \<and> map_option songs (queues (on_idle g w) g) = map_option (\<lambda>s. tl (songs s)) (queues w g)
   \<and> map_option songs (queues (on_error g err w) g) = map_option (\<lambda>s. tl (songs s)) (queues w g)
   \<and> map_option songs (queues (emit_idle g w) g)
        = map_option (\<lambda>s. drop (idle_once (player s)) (songs s)) (queues w g)
   \<and> map_option songs (queues (emit_error g err w) g)
        = map_option (\<lambda>s. drop (error_once (player s)) (songs s)) (queues w g)"
proof -
  have "on_error g err w = (on_idle g w)\<lparr>console := console w @ [LogPlayerError err]\<rparr>"
    by (simp add: on_error_def on_idle_def Let_def split: option.splits)
  moreover have "map_option songs (queues (emit_idle g w) g)
        = map_option (\<lambda>s. drop (idle_once (player s)) (songs s)) (queues w g)"
    by (cases "queues w g") (simp_all add: emit_idle_def on_idle_funpow_songs)
  moreover have "map_option songs (queues (emit_error g err w) g)
        = map_option (\<lambda>s. drop (error_once (player s)) (songs s)) (queues w g)"
    by (cases "queues w g") (simp_all add: emit_error_def on_error_funpow_songs)
  ultimately show ?thesis
    by (simp add: on_idle_songs on_error_songs)
qed

lemmas run_defs = first_ended_def second_ended_def second_failed_def three_queued_def bot_defs
  link_test wait_defs playSong_buffered_head event_defs enoent_def

text \<open>
  C6 (evaluated at a failing input). The claim asks completion and playback error to
  advance the queue by the same transition: kill the head's pair, remove the head, start
  the new head. Three songs are queued and the first has ended, so the second is playing
  with one \<open>Idle\<close> listener and two \<open>error\<close> listeners registered, the \<open>error\<close> listener of
  the first song never having fired. If the second song ends, its pair 2, 3 is killed,
  it is removed and the third song is started: its pair 4, 5 is bound and its stream is
  given to the player. If the second song fails instead, both \<open>error\<close> listeners run:
  the pair 2, 3 is killed, two songs are removed, no new head is started, the pair 4, 5
  is never killed and the session is torn down.
\<close>

theorem C6_error_advances_further_than_completion:
  "map_option (\<lambda>srv. (map url (songs srv), idle_once (player srv), error_once (player srv)))
      (queues (run_bot first_ended) ''g'')
     = Some ([''https://youtu.be/b'', ''https://youtu.be/c''], 1, 2)
   \<and> map_option (\<lambda>srv. (map url (songs srv), playProcess srv, resource (player srv)))
        (queues (run_bot second_ended) ''g'')
       = Some ([''https://youtu.be/c''], Some \<lparr>ytdlp = 4, ffmpeg = 5\<rparr>, Some 5)
   \<and> 2 \<in> killed (run_bot second_ended) \<and> 3 \<in> killed (run_bot second_ended)
   \<and> 4 \<notin> killed (run_bot second_ended) \<and> 5 \<notin> killed (run_bot second_ended)
   \<and> queues (run_bot second_failed) ''g'' = None
   \<and> 2 \<in> killed (run_bot second_failed) \<and> 3 \<in> killed (run_bot second_failed)
   \<and> 4 \<notin> killed (run_bot second_failed) \<and> 5 \<notin> killed (run_bot second_failed)
   \<and> 0 \<in> destroyed (run_bot second_failed)"
proof -
  have a: "map_option (\<lambda>srv. (map url (songs srv), idle_once (player srv), error_once (player srv)))
      (queues (run_bot first_ended) ''g'')
     = Some ([''https://youtu.be/b'', ''https://youtu.be/c''], 1, 2)"
    by (simp add: run_defs)
  have b: "map_option (\<lambda>srv. (map url (songs srv), playProcess srv, resource (player srv)))
        (queues (run_bot second_ended) ''g'')
       = Some ([''https://youtu.be/c''], Some \<lparr>ytdlp = 4, ffmpeg = 5\<rparr>, Some 5)"
    by (simp add: run_defs)
  have c: "2 \<in> killed (run_bot second_ended) \<and> 3 \<in> killed (run_bot second_ended)
   \<and> 4 \<notin> killed (run_bot second_ended) \<and> 5 \<notin> killed (run_bot second_ended)"
    by (simp add: run_defs)
  have d: "queues (run_bot second_failed) ''g'' = None"
    by (simp add: run_defs)
  have e: "2 \<in> killed (run_bot second_failed) \<and> 3 \<in> killed (run_bot second_failed)
   \<and> 4 \<notin> killed (run_bot second_failed) \<and> 5 \<notin> killed (run_bot second_failed)
   \<and> 0 \<in> destroyed (run_bot second_failed)"
    by (simp add: run_defs)
  show ?thesis using a b c d e by blast
qed

section \<open>C7: a search without results\<close>

text \<open>
  C7 (counterexample). The claim covers every query for which the search has no result.
  For a link the handler does not look at the number of results (lines 185-188): the
  song is enqueued and a session is created.
\<close>

theorem C7_link_without_results_is_enqueued:
  "ytSearch env_long ''https://youtu.be/a'' = SearchReturns (Some [])
   \<and> queues initial ''g'' = None
   \<and> fst (handler env_long (music ''play'' ''https://youtu.be/a'') initial)
        = Returns (Some (NowPlaying ''https://youtu.be/a''))
   \<and> map_option songs (queues (snd (handler env_long (music ''play'' ''https://youtu.be/a'') initial)) ''g'')
        = Some [\<lparr>title = ''https://youtu.be/a'', url = ''https://youtu.be/a'',
                  buffer = Some \<lparr>proc = \<lparr>ytdlp = 0, ffmpeg = 1\<rparr>, stream = 1\<rparr>\<rparr>]"
  by (simp add: bot_defs link_test wait_defs playSong_buffered_head)

text \<open>
  C7 (amended). For a query that is not a YouTube link, when the search returns no
  video the handler replies with an error message (that the member must be in a voice
  channel, when they are not; that nothing was found, otherwise) and leaves the whole
  state, the queue map included, as it was.
\<close>

theorem C7_no_results_leaves_queues:
  assumes "isChatInputCommand i" and "commandName i = ''music''" and "subcommand i = ''play''"
    and "\<not> isUrl (query i)"
    and "ytSearch e (query i) = SearchReturns None \<or> ytSearch e (query i) = SearchReturns (Some [])"
  shows "handler e i w =
           (Returns (Some (case voiceChannel i of None \<Rightarrow> MustBeInVoiceChannel
                           | Some _ \<Rightarrow> NoResultsFound)), w)"
  using assms by (auto simp add: handler_def resolve_song_def split: option.splits)

text \<open>Witness for C7 (amended): a search term without results, while a song plays.\<close>

theorem C7_no_results_leaves_queues_witness:
  "\<not> isUrl ''never gonna give you up''
   \<and> ytSearch env_long ''never gonna give you up'' = SearchReturns (Some [])
   \<and> handler env_long (music ''play'' ''never gonna give you up'') one_playing
        = (Returns (Some NoResultsFound), one_playing)"
proof -
  let ?i = "music ''play'' ''never gonna give you up''"
  have i: "isChatInputCommand ?i" "commandName ?i = ''music''" "subcommand ?i = ''play''"
    by (simp_all add: music_def)
  have u: "\<not> isUrl (query ?i)" by (simp add: music_def link_test)
  have s: "ytSearch env_long (query ?i) = SearchReturns None
           \<or> ytSearch env_long (query ?i) = SearchReturns (Some [])"
    by (simp add: env_long_def)
  show ?thesis
    using C7_no_results_leaves_queues [OF i u s, of one_playing] u
    by (simp add: music_def env_long_def)
qed

section \<open>C8: what the promise rejects with\<close>

text \<open>
  C8 (counterexample). The claim asks for a rejection that carries the identity of the
  failing process. Both \<open>error\<close> listeners are the promise's own \<open>reject\<close>: the same error
  emitted by the downloader and by the transcoder gives the same rejection.
\<close>

theorem C8_same_rejection_for_both_processes:
  "fst (createBufferedStream env_failing ''u'' 5 initial) = Throws enoent
   \<and> fst (createBufferedStream env_transcoder_failing ''u'' 5 initial) = Throws enoent"
  by (simp add: fst_createBufferedStream env_failing_def env_transcoder_failing_def
      start_def check_def deliver_def reject_def bufferLimit_def)

text \<open>
  C8 (amended). When either process emits \<open>error\<close> while the promise is still pending,
  that is, after a prefix of events during which no poll has seen the counter at the
  limit, \<open>createBufferedStream\<close> throws exactly the emitted error value.
\<close>

theorem C8_rejects_with_emitted_error:
  assumes "promise (run (bufferLimit mb) (start (bufferLimit mb)) pre) = Pending"
    and "ev = FfmpegError err \<or> ev = YtdlpError err"
    and "trace_of e u = pre @ ev # post"
  shows "fst (createBufferedStream e u mb w) = Throws err"
proof -
  have "fst (await_promise (bufferLimit mb) (start (bufferLimit mb)) (pre @ ev # post)) = Rejects err"
    using await_after_pending_prefix [OF assms(1)] await_error_event [OF assms(1) assms(2)]
    by simp
  then show ?thesis by (simp add: fst_createBufferedStream assms(3))
qed

text \<open>Witness for C8 (amended): a transcoder error after 1000 bytes and one poll.\<close>

theorem C8_rejects_with_emitted_error_witness:
  "fst (createBufferedStream
          \<lparr>trace_of = const_trace [FfmpegData 1000, Timer, FfmpegError enoent, FfmpegEnd], ytSearch = no_videos\<rparr>
          ''u'' 5 initial) = Throws enoent"
proof -
  have a: "promise (run (bufferLimit 5) (start (bufferLimit 5)) [FfmpegData 1000, Timer]) = Pending"
    by (simp add: start_def check_def deliver_def on_data_def bufferLimit_def)
  show ?thesis
    using C8_rejects_with_emitted_error [OF a, of "FfmpegError enoent" enoent _ "''u''" "[FfmpegEnd]"]
    by simp
qed

section \<open>C9: the \<open>skip\<close> subcommand\<close>

text \<open>
  C9. \<open>song\<close> is declared by \<open>let\<close> inside the \<open>play\<close> block and by no scope that encloses
  the \<open>skip\<close> block, so building the reply of line 233 throws a \<open>ReferenceError\<close> before
  \<open>interaction.reply\<close> is called: the handler rejects and the state, the queue included,
  is left as it was.
\<close>

theorem C9_skip_throws_reference_error:
  assumes "isChatInputCommand i" and "commandName i = ''music''" and "subcommand i = ''skip''"
  shows "''song'' \<in> set play_scope
         \<and> ''song'' \<notin> set (skip_scope @ music_scope @ handler_scope @ module_scope @ global_scope)
         \<and> handler e i w = (Throws (ReferenceError ''song''), w)"
  using assms
  by (simp add: handler_def evaluate_name_def play_scope_def skip_scope_def music_scope_def
      handler_scope_def module_scope_def global_scope_def)

text \<open>Witness for C9: \<open>skip\<close> with three songs queued.\<close>

theorem C9_skip_throws_reference_error_witness:
  "handler env_long (music ''skip'' []) (run_bot three_queued)
     = (Throws (ReferenceError ''song''), run_bot three_queued)"
  using C9_skip_throws_reference_error [of "music ''skip'' []" env_long "run_bot three_queued"]
  by (simp add: music_def)

section \<open>C10: a query that is a YouTube link\<close>

text \<open>
  C10 (counterexample). The claim has every query matching the link pattern enqueued.
  The song is pre-buffered first (line 197), inside the \<open>try\<close> whose \<open>catch\<close> replies that
  the query could not be resolved: for a link whose download cannot be spawned nothing is
  enqueued and no session is created.
\<close>

theorem C10_failed_prebuffer_enqueues_nothing:
  "isUrl ''https://youtu.be/a''
   \<and> queues initial ''g'' = None
   \<and> fst (handler env_failing (music ''play'' ''https://youtu.be/a'') initial)
        = Returns (Some FailedToResolve)
   \<and> queues (snd (handler env_failing (music ''play'' ''https://youtu.be/a'') initial)) ''g'' = None"
  by (simp add: handler_def music_def resolve_song_def prebuffer_def createBufferedStream_def
      Let_def initial_def env_failing_def link_test wait_defs)

text \<open>
  C10 (amended). For a query matching the link pattern the handler never answers that
  nothing was found, whatever the search returns. Whenever the member is in a voice
  channel, the search returns and the pre-buffering of the link succeeds, the song
  enqueued last in the guild's queue has the query as its URL and as its title the
  first video's title, or the query itself when there is no video (or its title is
  empty).
\<close>

theorem C10_link_is_enqueued_as_given:
  assumes "isChatInputCommand i" and "commandName i = ''music''" and "subcommand i = ''play''"
    and "isUrl (query i)"
  shows "fst (handler e i w) \<noteq> Returns (Some NoResultsFound)
         \<and> (\<forall>vc vs a w1.
               voiceChannel i = Some vc \<and> ytSearch e (query i) = SearchReturns vs
               \<and> createBufferedStream e (query i) 5 w = (Returns a, w1) \<longrightarrow>
               (\<exists>srv'. queues (snd (handler e i w)) (guildId i) = Some srv' \<and> songs srv' \<noteq> []
                        \<and> last (songs srv')
                            = \<lparr>title = title_or vs (query i), url = query i, buffer = Some a\<rparr>))
         \<and> title_or None (query i) = query i \<and> title_or (Some []) (query i) = query i"
proof -
  have a: "fst (handler e i w) \<noteq> Returns (Some NoResultsFound)"
  proof (cases "voiceChannel i")
    case None
    then show ?thesis using assms by (simp add: handler_def)
  next
    case (Some vc)
    obtain r w1 where rs: "resolve_song e (query i) w = (r, w1)"
      by (cases "resolve_song e (query i) w")
    show ?thesis
    proof (cases r)
      case (Returns x)
      show ?thesis
      proof (cases x)
        case (Inl rep)
        have "rep = FailedToResolve"
          using rs Returns Inl assms(4)
          by (auto simp add: resolve_song_def split: search_result.splits dest: prebuffer_reply)
        then show ?thesis using assms Some rs Returns Inl by (simp add: handler_def)
      next
        case (Inr sng)
        then show ?thesis using assms Some rs Returns enqueue_reply [of e "guildId i" sng w1]
          by (simp add: handler_def)
      qed
    next
      case (Throws err)
      then show ?thesis using assms Some rs by (simp add: handler_def)
    next
      case NeverSettles
      then show ?thesis using assms Some rs by (simp add: handler_def)
    qed
  qed
  have b: "\<exists>srv'. queues (snd (handler e i w)) (guildId i) = Some srv' \<and> songs srv' \<noteq> []
                        \<and> last (songs srv')
                            = \<lparr>title = title_or vs (query i), url = query i, buffer = Some a\<rparr>"
    if h: "voiceChannel i = Some vc" "ytSearch e (query i) = SearchReturns vs"
      "createBufferedStream e (query i) 5 w = (Returns a, w1)" for vc vs a w1
  proof -
    let ?sng = "\<lparr>title = title_or vs (query i), url = query i, buffer = Some a\<rparr>"
    have "resolve_song e (query i) w = (Returns (Inr ?sng), w1)"
      using assms(4) h(2,3) by (simp add: resolve_song_def prebuffer_def)
    then have "handler e i w = enqueue e (guildId i) ?sng w1"
      using assms h(1) by (simp add: handler_def)
    then show ?thesis
      using enqueue_last_song [of ?sng a e "guildId i" w1] by simp
  qed
  show ?thesis using a b by (simp add: title_or_def)
qed

text \<open>Witness for C10 (amended): a link for which the search has no video, while a song plays.\<close>

theorem C10_link_is_enqueued_as_given_witness:
  "isUrl ''https://youtu.be/b''
   \<and> fst (handler env_long (music ''play'' ''https://youtu.be/b'') one_playing)
        \<noteq> Returns (Some NoResultsFound)
   \<and> (\<exists>srv'. queues (snd (handler env_long (music ''play'' ''https://youtu.be/b'') one_playing)) ''g''
                 = Some srv'
               \<and> songs srv' \<noteq> [] \<and> last (songs srv') = second_song)"
proof -
  let ?i = "music ''play'' ''https://youtu.be/b''"
  let ?a = "\<lparr>proc = \<lparr>ytdlp = 2, ffmpeg = 3\<rparr>, stream = 3\<rparr>"
  have i: "isChatInputCommand ?i" "commandName ?i = ''music''" "subcommand ?i = ''play''"
    by (simp_all add: music_def)
  have u: "isUrl (query ?i)" by (simp add: music_def link_test)
  have c: "createBufferedStream env_long (query ?i) 5 one_playing
             = (Returns ?a, snd (createBufferedStream env_long (query ?i) 5 one_playing))"
    by (simp add: bot_defs wait_defs sample_defs)
  have "voiceChannel ?i = Some 7 \<and> ytSearch env_long (query ?i) = SearchReturns (Some [])
        \<and> createBufferedStream env_long (query ?i) 5 one_playing
             = (Returns ?a, snd (createBufferedStream env_long (query ?i) 5 one_playing))"
    using c by (simp add: music_def env_long_def)
  then have "\<exists>srv'. queues (snd (handler env_long ?i one_playing)) (guildId ?i) = Some srv'
               \<and> songs srv' \<noteq> []
               \<and> last (songs srv')
                   = \<lparr>title = title_or (Some []) (query ?i), url = query ?i, buffer = Some ?a\<rparr>"
    using C10_link_is_enqueued_as_given [OF i u, of env_long one_playing] by blast
  moreover have "fst (handler env_long ?i one_playing) \<noteq> Returns (Some NoResultsFound)"
    using C10_link_is_enqueued_as_given [OF i u, of env_long one_playing] by blast
  ultimately show ?thesis
    using u by (simp add: music_def second_song_def title_or_def)
qed

end
